theory Spec2Isabelle
  imports Complex_Main "HOL-Library.Word"
begin

unbundle bit_operations_syntax

section \<open>Floating-point arithmetic of the C program\<close>

text \<open>
  \<open>servo-tester.c\<close> scales the analog sample in \<open>float\<close> arithmetic. A finite
  floating-point value is modelled by the rational number it denotes, and every C
  operation by the exact rational operation followed by IEEE 754 rounding to nearest,
  ties to even, in the format of the operation. \<open>float\<close> is binary32. The format of
  \<open>double\<close> is a parameter of the model: avr-gcc makes \<open>double\<close> a binary32 by
  default and a binary64 under \<open>-mdouble=64\<close>. All values of this program are
  below \<open>2 ^ 9\<close>, so infinities and NaN never arise and are not modelled.
\<close>

datatype fp_format = Binary32 | Binary64

text \<open>Precision (bits of the significand) and least normal exponent of a format.\<close>

fun prec :: "fp_format \<Rightarrow> int" where
  "prec Binary32 = 24"
| "prec Binary64 = 53"

fun emin :: "fp_format \<Rightarrow> int" where
  "emin Binary32 = - 126"
| "emin Binary64 = - 1022"

definition pow2 :: "int \<Rightarrow> rat" where
  "pow2 e = (if 0 \<le> e then 2 ^ nat e else 1 / 2 ^ nat (- e))"

text \<open>Number of binary digits of a positive integer.\<close>

function bit_length :: "int \<Rightarrow> int" where
  "bit_length n = (if n \<le> 0 then 0 else 1 + bit_length (n div 2))"
  by pat_completeness auto
termination
  by (relation "measure nat") auto

declare bit_length.simps [simp del]

text \<open>\<open>ilog2 q\<close> is the integer \<open>e\<close> with \<open>2 ^ e \<le> q < 2 ^ (e + 1)\<close>, for \<open>q > 0\<close>.\<close>

definition ilog2 :: "rat \<Rightarrow> int" where
  "ilog2 q = (if 1 \<le> q then bit_length \<lfloor>q\<rfloor> - 1
              else - bit_length (\<lceil>1 / q\<rceil> - 1))"

definition round_half_even :: "rat \<Rightarrow> int" where
  "round_half_even q =
     (let n = \<lfloor>q\<rfloor>; r = q - of_int n
      in if r < 1 / 2 then n
         else if 1 / 2 < r then n + 1
         else if even n then n else n + 1)"

text \<open>
  Rounding to a format: the value is scaled so that one unit in the last place becomes
  \<open>1\<close>, rounded to an integer, and scaled back. Below the normal range the unit in the
  last place stays that of the least normal exponent (gradual underflow).
\<close>

definition fp_round :: "fp_format \<Rightarrow> rat \<Rightarrow> rat" where
  "fp_round f q =
     (if q = 0 then 0
      else let e = max (ilog2 \<bar>q\<bar>) (emin f) - prec f + 1
           in sgn q * of_int (round_half_even (\<bar>q\<bar> / pow2 e)) * pow2 e)"

text \<open>Conversion of a floating-point value to an integer type truncates towards zero.\<close>

definition fp_trunc :: "rat \<Rightarrow> int" where
  "fp_trunc q = (if 0 \<le> q then \<lfloor>q\<rfloor> else \<lceil>q\<rceil>)"

text \<open>
  The casts and operators of lines 197 to 200. \<open>(float)analog_readout\<close> converts a
  \<open>uint8_t\<close>; \<open>temp * (PWM_RANGE / 255.0)\<close> multiplies in \<open>double\<close> and the
  assignment to \<open>temp\<close> rounds the product to \<open>float\<close>; \<open>temp + PWM_LOW\<close> adds in
  \<open>float\<close>; \<open>(uint8_t)temp\<close> truncates and keeps the low eight bits of the integer.
\<close>

definition float_of_uint8 :: "8 word \<Rightarrow> rat" where
  "float_of_uint8 a = fp_round Binary32 (of_int (uint a))"

definition double_div :: "fp_format \<Rightarrow> rat \<Rightarrow> rat \<Rightarrow> rat" where
  "double_div dbl x y = fp_round dbl (x / y)"

definition float_mul_double :: "fp_format \<Rightarrow> rat \<Rightarrow> rat \<Rightarrow> rat" where
  "float_mul_double dbl x y = fp_round Binary32 (fp_round dbl (x * y))"

definition float_add :: "rat \<Rightarrow> rat \<Rightarrow> rat" where
  "float_add x y = fp_round Binary32 (x + y)"

definition uint8_of_float :: "rat \<Rightarrow> 8 word" where
  "uint8_of_float t = word_of_int (fp_trunc t)"

section \<open>Constants of \<open>servo-tester.c\<close>\<close>

definition PA_DDR_INIT :: "8 word" where "PA_DDR_INIT = 0b01000000"
definition PA_PUP_INIT :: "8 word" where "PA_PUP_INIT = 0b00000010"
definition PA_INIT :: "8 word" where "PA_INIT = 0x00"

definition PB_DDR_INIT :: "8 word" where "PB_DDR_INIT = 0b00000000"
definition PB_PUP_INIT :: "8 word" where "PB_PUP_INIT = 0b00000000"
definition PB_INIT :: "8 word" where "PB_INIT = 0x00"

definition TIM1_CTRLA :: "8 word" where "TIM1_CTRLA = 0b10000010"
definition TIM1_CTRLB :: "8 word" where "TIM1_CTRLB = 0b00011011"

definition ADMUX_INIT :: "8 word" where "ADMUX_INIT = 0b00000000"
definition ADCSRA_INIT :: "8 word" where "ADCSRA_INIT = 0b11101111"
definition ADCSRB_INIT :: "8 word" where "ADCSRB_INIT = 0b00010000"

definition SERVO_PERIOD :: int where "SERVO_PERIOD = 2499"

definition PWM_LOW :: int where "PWM_LOW = 123"
definition PWM_CENTER :: int where "PWM_CENTER = 184"
definition PWM_HIGH :: int where "PWM_HIGH = 246"
definition PWM_INIT :: int where "PWM_INIT = PWM_CENTER"
definition PWM_RANGE :: int where "PWM_RANGE = PWM_HIGH - PWM_LOW"

definition SET_CENTER :: "8 word" where "SET_CENTER = 1"
definition SET_MANUAL :: "8 word" where "SET_MANUAL = 0"

section \<open>Machine state\<close>

text \<open>
  The I/O registers the program writes or reads, the global \<open>analog_readout\<close> and the
  locals of \<open>main\<close>. \<open>temp\<close> is declared without an initial value, so its first
  value is whatever the state holds. \<open>SREG_I\<close> is the global interrupt enable flag
  that \<open>cli()\<close> and \<open>sei()\<close> clear and set. \<open>OCR1A_writes\<close> is not a program
  variable: it counts the assignments to \<open>OCR1A\<close> executed so far, so that "no write
  occurs" can be told from "the same value is written again". \<open>ms_waited\<close> is not a
  program variable either: it counts the milliseconds spent waiting in \<open>_delay_ms\<close>.
\<close>

record mcu =
  CLKPR :: "8 word"
  TCNT1 :: "16 word"
  OCR1A :: "16 word"
  ICR1 :: "16 word"
  TCCR1A :: "8 word"
  TCCR1B :: "8 word"
  TCCR1C :: "8 word"
  TIMSK1 :: "8 word"
  ADMUX :: "8 word"
  ADCSRA :: "8 word"
  ADCSRB :: "8 word"
  ADCH :: "8 word"
  DDRA :: "8 word"
  PORTA :: "8 word"
  PINA :: "8 word"
  DDRB :: "8 word"
  PORTB :: "8 word"
  MCUSR :: "8 word"
  WDTCSR :: "8 word"
  SREG_I :: bool
  analog_readout :: "8 word"
  temp :: rat
  center_manual_sw :: "8 word"
  prev_sw_state :: "8 word"
  OCR1A_writes :: nat
  ms_waited :: nat

section \<open>The functions of \<open>servo-tester.c\<close>\<close>

text \<open>\<open>ioinit()\<close>, lines 107 to 135: the register assignments in their order.\<close>

definition ioinit :: "mcu \<Rightarrow> mcu" where
  "ioinit st = st
     \<lparr>CLKPR := 0x80,
      CLKPR := 0x00,
      TCNT1 := 0,
      OCR1A := word_of_int PWM_INIT,
      OCR1A_writes := OCR1A_writes st + 1,
      ICR1 := word_of_int SERVO_PERIOD,
      TCCR1A := TIM1_CTRLA,
      TCCR1B := TIM1_CTRLB,
      TCCR1C := 0,
      TIMSK1 := 0,
      ADMUX := ADMUX_INIT,
      ADCSRA := ADCSRA_INIT,
      ADCSRB := ADCSRB_INIT,
      DDRA := PA_DDR_INIT,
      PORTA := PA_INIT OR PA_PUP_INIT,
      DDRB := PB_DDR_INIT,
      PORTB := PB_INIT OR PB_PUP_INIT\<rparr>"

text \<open>
  \<open>reset()\<close>, lines 143 to 153, placed in section \<open>.init3\<close>: \<open>cli()\<close>, the reset
  flags cleared, and \<open>wdt_disable()\<close> of avr-libc, which leaves the watchdog control
  register cleared.
\<close>

definition reset :: "mcu \<Rightarrow> mcu" where
  "reset st = st\<lparr>SREG_I := False, MCUSR := 0, WDTCSR := 0\<rparr>"

text \<open>The interrupt handler \<open>ISR(ADC_vect)\<close>, lines 160 to 163.\<close>

definition ADC_vect :: "mcu \<Rightarrow> mcu" where
  "ADC_vect st = st\<lparr>analog_readout := ADCH st\<rparr>"

definition sei :: "mcu \<Rightarrow> mcu" where
  "sei st = st\<lparr>SREG_I := True\<rparr>"

text \<open>
  The constant expression \<open>(PWM_RANGE / 255.0)\<close> of line 198, a division in
  \<open>double\<close>, and the value of \<open>temp\<close> after lines 197 to 199.
\<close>

definition pwm_scale :: "fp_format \<Rightarrow> rat" where
  "pwm_scale dbl = double_div dbl (of_int PWM_RANGE) 255"

definition scale_readout :: "fp_format \<Rightarrow> 8 word \<Rightarrow> rat" where
  "scale_readout dbl a =
     (let temp = float_of_uint8 a;
          temp = float_mul_double dbl temp (pwm_scale dbl);
          temp = float_add temp (of_int PWM_LOW)
      in temp)"

text \<open>
  One iteration of the endless loop, lines 188 to 203. The assignment to the 16-bit
  \<open>OCR1A\<close> zero-extends the \<open>uint8_t\<close> value of the cast.
\<close>

definition loop_body :: "fp_format \<Rightarrow> mcu \<Rightarrow> mcu" where
  "loop_body dbl st =
     (let st = st\<lparr>center_manual_sw := drop_bit 1 (PINA st AND 0b00000010)\<rparr>;
          st =
            (if center_manual_sw st \<noteq> prev_sw_state st \<and> center_manual_sw st = SET_CENTER
             then st\<lparr>OCR1A := word_of_int PWM_CENTER, OCR1A_writes := OCR1A_writes st + 1\<rparr>
             else if center_manual_sw st = SET_MANUAL
             then
               (let st = st\<lparr>temp := scale_readout dbl (analog_readout st)\<rparr>
                in st\<lparr>OCR1A := ucast (uint8_of_float (temp st)),
                      OCR1A_writes := OCR1A_writes st + 1\<rparr>)
             else st)
      in st\<lparr>prev_sw_state := center_manual_sw st\<rparr>)"

section \<open>The hardware around the program\<close>

text \<open>
  What the program does not control: the level of the port A pins, and the conversions
  of the free-running ADC. A conversion gives a 10-bit result. With bit 4 (ADLAR) of
  \<open>ADCSRB\<close> set the result is left adjusted and \<open>ADCH\<close> holds its bits 9 to 2;
  with the bit clear \<open>ADCH\<close> holds bits 9 and 8 (ATtiny84 data sheet, section 16.13.3).
  The handler runs when a conversion completes while the global interrupt flag and the
  ADC interrupt enable, bit 3 (ADIE) of \<open>ADCSRA\<close>, are set. A conversion that
  completes while interrupts are disabled only updates the data register here.
\<close>

datatype hw_event = Pin_change "8 word" | Conversion "10 word"

definition ADCH_of :: "8 word \<Rightarrow> 10 word \<Rightarrow> 8 word" where
  "ADCH_of adcsrb c = (if bit adcsrb 4 then ucast (drop_bit 2 c) else ucast (drop_bit 8 c))"

definition adc_interrupt :: "mcu \<Rightarrow> mcu" where
  "adc_interrupt st = (if SREG_I st \<and> bit (ADCSRA st) 3 then ADC_vect st else st)"

fun hw_step :: "hw_event \<Rightarrow> mcu \<Rightarrow> mcu" where
  "hw_step (Pin_change v) st = st\<lparr>PINA := v\<rparr>"
| "hw_step (Conversion c) st = adc_interrupt (st\<lparr>ADCH := ADCH_of (ADCSRB st) c\<rparr>)"

fun hw_steps :: "hw_event list \<Rightarrow> mcu \<Rightarrow> mcu" where
  "hw_steps [] st = st"
| "hw_steps (e # es) st = hw_steps es (hw_step e st)"

text \<open>
  \<open>_delay_ms(ms)\<close> of avr-libc busy-waits for \<open>ms\<close> milliseconds, counted at the clock
  frequency \<open>F_CPU\<close> that the compiler is given (the macro is not part of the source
  file). The program changes nothing meanwhile: one millisecond of waiting only advances
  \<open>ms_waited\<close>. In each millisecond the hardware events of that millisecond happen
  first, \<open>env k\<close> in the \<open>k\<close>-th one.
\<close>

definition wait_1ms :: "mcu \<Rightarrow> mcu" where
  "wait_1ms st = st\<lparr>ms_waited := ms_waited st + 1\<rparr>"

fun delay_ms :: "nat \<Rightarrow> (nat \<Rightarrow> hw_event list) \<Rightarrow> mcu \<Rightarrow> mcu" where
  "delay_ms 0 env st = st"
| "delay_ms (Suc ms) env st = delay_ms ms (\<lambda>k. env (Suc k)) (wait_1ms (hw_steps (env 0) st))"

section \<open>The program\<close>

text \<open>
  Before \<open>main\<close>, the startup code runs \<open>reset()\<close> and then initialises the global
  \<open>analog_readout\<close> to \<open>0\<close> (line 98).
\<close>

definition startup :: "mcu \<Rightarrow> mcu" where
  "startup hw = (reset hw)\<lparr>analog_readout := 0\<rparr>"

text \<open>\<open>main\<close> up to the loop: the locals, \<open>ioinit()\<close>, \<open>sei()\<close>, lines 171 to 179.\<close>

definition main_init :: "mcu \<Rightarrow> mcu" where
  "main_init st = sei (ioinit (st\<lparr>center_manual_sw := SET_CENTER, prev_sw_state := SET_MANUAL\<rparr>))"

text \<open>
  The loop never ends. Its runs are described by the finite sequences of events that
  can happen in it: a hardware event, or one iteration of the loop body. The body reads
  \<open>PINA\<close> and \<open>analog_readout\<close> once each, both single bytes, and the handler
  writes nothing but \<open>analog_readout\<close>; a handler that runs inside an iteration
  therefore has the effect of one that runs just before or just after it.
\<close>

datatype event = Hw hw_event | Iteration

fun step :: "fp_format \<Rightarrow> event \<Rightarrow> mcu \<Rightarrow> mcu" where
  "step dbl (Hw e) st = hw_step e st"
| "step dbl Iteration st = loop_body dbl st"

fun run :: "fp_format \<Rightarrow> event list \<Rightarrow> mcu \<Rightarrow> mcu" where
  "run dbl [] st = st"
| "run dbl (e # es) st = run dbl es (step dbl e st)"

text \<open>
  \<open>main\<close> from power-up: the state after the settling delay of line 182 and the
  events \<open>evs\<close> of the loop.
\<close>

definition main :: "fp_format \<Rightarrow> (nat \<Rightarrow> hw_event list) \<Rightarrow> event list \<Rightarrow> mcu \<Rightarrow> mcu" where
  "main dbl env evs hw = run dbl evs (delay_ms 2000 env (main_init (startup hw)))"

text \<open>
  The same startup statement by statement, so that the order of the statements shows:
  the two initialised locals of \<open>main\<close> (lines 172 and 173), the sixteen register
  assignments of \<open>ioinit()\<close> in the order of lines 110 to 134, \<open>sei()\<close>, and
  \<open>_delay_ms(2000)\<close> as 2000 waits of one millisecond.
\<close>

definition ioinit_stmts :: "(mcu \<Rightarrow> mcu) list" where
  "ioinit_stmts =
     [\<lambda>st. st\<lparr>CLKPR := 0x80\<rparr>,
      \<lambda>st. st\<lparr>CLKPR := 0x00\<rparr>,
      \<lambda>st. st\<lparr>TCNT1 := 0\<rparr>,
      \<lambda>st. st\<lparr>OCR1A := word_of_int PWM_INIT, OCR1A_writes := OCR1A_writes st + 1\<rparr>,
      \<lambda>st. st\<lparr>ICR1 := word_of_int SERVO_PERIOD\<rparr>,
      \<lambda>st. st\<lparr>TCCR1A := TIM1_CTRLA\<rparr>,
      \<lambda>st. st\<lparr>TCCR1B := TIM1_CTRLB\<rparr>,
      \<lambda>st. st\<lparr>TCCR1C := 0\<rparr>,
      \<lambda>st. st\<lparr>TIMSK1 := 0\<rparr>,
      \<lambda>st. st\<lparr>ADMUX := ADMUX_INIT\<rparr>,
      \<lambda>st. st\<lparr>ADCSRA := ADCSRA_INIT\<rparr>,
      \<lambda>st. st\<lparr>ADCSRB := ADCSRB_INIT\<rparr>,
      \<lambda>st. st\<lparr>DDRA := PA_DDR_INIT\<rparr>,
      \<lambda>st. st\<lparr>PORTA := PA_INIT OR PA_PUP_INIT\<rparr>,
      \<lambda>st. st\<lparr>DDRB := PB_DDR_INIT\<rparr>,
      \<lambda>st. st\<lparr>PORTB := PB_INIT OR PB_PUP_INIT\<rparr>]"

definition main_stmts :: "(mcu \<Rightarrow> mcu) list" where
  "main_stmts =
     [\<lambda>st. st\<lparr>center_manual_sw := SET_CENTER\<rparr>,
      \<lambda>st. st\<lparr>prev_sw_state := SET_MANUAL\<rparr>]
     @ ioinit_stmts @ [sei] @ replicate 2000 wait_1ms"

text \<open>
  The states a statement sequence passes through, one after each statement. Hardware
  events can happen between any two statements: \<open>env k\<close> are those that precede the
  \<open>k\<close>-th statement.
\<close>

fun exec_trace :: "(mcu \<Rightarrow> mcu) list \<Rightarrow> (nat \<Rightarrow> hw_event list) \<Rightarrow> mcu \<Rightarrow> mcu list" where
  "exec_trace [] env st = []"
| "exec_trace (f # fs) env st = f (hw_steps (env 0) st) # exec_trace fs (\<lambda>k. env (Suc k)) (f (hw_steps (env 0) st))"

definition main_trace :: "(nat \<Rightarrow> hw_event list) \<Rightarrow> mcu \<Rightarrow> mcu list" where
  "main_trace env hw = exec_trace main_stmts env (startup hw)"

text \<open>
  While the switch stays in the Center position: no pin change of the sequence clears
  bit 1 of \<open>PINA\<close>.
\<close>

fun stays_center :: "event list \<Rightarrow> bool" where
  "stays_center [] = True"
| "stays_center (Hw (Pin_change v) # evs) = (bit v 1 \<and> stays_center evs)"
| "stays_center (e # evs) = stays_center evs"

text \<open>A concrete state to start from: every register and variable cleared.\<close>

definition power_on :: mcu where
  "power_on =
     \<lparr>CLKPR = 0, TCNT1 = 0, OCR1A = 0, ICR1 = 0, TCCR1A = 0, TCCR1B = 0, TCCR1C = 0,
      TIMSK1 = 0, ADMUX = 0, ADCSRA = 0, ADCSRB = 0, ADCH = 0, DDRA = 0, PORTA = 0,
      PINA = 0, DDRB = 0, PORTB = 0, MCUSR = 0, WDTCSR = 0, SREG_I = False,
      analog_readout = 0, temp = 0, center_manual_sw = 0, prev_sw_state = 0,
      OCR1A_writes = 0, ms_waited = 0\<rparr>"

text \<open>The safe range of the compare value: \<open>PWM_LOW\<close> to \<open>PWM_HIGH\<close> inclusive.\<close>

definition pwm_in_range :: "mcu \<Rightarrow> bool" where
  "pwm_in_range st \<longleftrightarrow> PWM_LOW \<le> uint (OCR1A st) \<and> uint (OCR1A st) \<le> PWM_HIGH"

section \<open>The rounding function\<close>

text \<open>
  \<open>bit_length\<close> counts binary digits, and \<open>ilog2\<close> is the exponent of the binade
  of its argument.
\<close>

lemma bit_length_nonneg: "0 \<le> bit_length n"
proof (induction n rule: bit_length.induct)
  case (1 n)
  then show ?case by (subst bit_length.simps) simp
qed

lemma bit_length_pos: "0 < n \<Longrightarrow> 1 \<le> bit_length n"
  using bit_length_nonneg [of "n div 2"] by (subst bit_length.simps) simp

lemma bit_length_le: "n < 2 ^ k \<Longrightarrow> bit_length n \<le> int k"
proof (induction k arbitrary: n)
  case 0
  then have "n \<le> 0" by simp
  then show ?case by (subst bit_length.simps) simp
next
  case (Suc k)
  show ?case
  proof (cases "n \<le> 0")
    case True
    then show ?thesis by (subst bit_length.simps) simp
  next
    case False
    from Suc.prems have "n div 2 < 2 ^ k" by simp
    then have "bit_length (n div 2) \<le> int k" by (rule Suc.IH)
    with False show ?thesis by (subst bit_length.simps) simp
  qed
qed

lemma bit_length_numeral: "bit_length (numeral k) = 1 + bit_length (numeral k div 2)"
  by (subst bit_length.simps) simp

lemma bit_length_0: "bit_length 0 = 0"
  by (subst bit_length.simps) simp

lemma bit_length_1: "bit_length 1 = 1"
  by (simp add: bit_length.simps [of 1] bit_length_0)

lemma bit_length_bounds:
  "0 < n \<Longrightarrow> 2 ^ nat (bit_length n - 1) \<le> n \<and> n < 2 ^ nat (bit_length n)"
proof (induction n rule: bit_length.induct)
  case (1 n)
  show ?case
  proof (cases "n = 1")
    case True
    then show ?thesis by (simp add: bit_length_1)
  next
    case False
    with "1.prems" have h: "0 < n div 2" by simp
    define b where "b = bit_length (n div 2)"
    have b1: "1 \<le> b" unfolding b_def using h by (rule bit_length_pos)
    have bn: "bit_length n = 1 + b"
      using "1.prems" by (subst bit_length.simps) (simp add: b_def)
    have IH: "2 ^ nat (b - 1) \<le> n div 2" "n div 2 < 2 ^ nat b"
      using "1.IH" "1.prems" h by (simp_all add: b_def)
    have s: "nat b = Suc (nat (b - 1))" using b1 by simp
    have "(2::int) ^ nat b = 2 * 2 ^ nat (b - 1)" by (subst s) simp
    also have "\<dots> \<le> 2 * (n div 2)" using IH(1) by simp
    also have "\<dots> \<le> n" by simp
    finally have lo: "2 ^ nat b \<le> n" .
    have "n < 2 * (n div 2 + 1)" by simp
    also have "\<dots> \<le> 2 * 2 ^ nat b" using IH(2) by simp
    finally have hi: "n < 2 * 2 ^ nat b" .
    have "nat (1 + b) = Suc (nat b)" using b1 by simp
    with lo hi show ?thesis by (simp add: bn)
  qed
qed

lemma ilog2_le_7:
  assumes "0 < q" "q < 256"
  shows "ilog2 q \<le> 7"
proof (cases "1 \<le> q")
  case True
  have "\<lfloor>q\<rfloor> < 2 ^ 8" using assms(2) by (simp add: floor_less_iff)
  then have "bit_length \<lfloor>q\<rfloor> \<le> int 8" by (rule bit_length_le)
  with True show ?thesis by (simp add: ilog2_def)
next
  case False
  have "0 \<le> bit_length (\<lceil>1 / q\<rceil> - 1)" by (rule bit_length_nonneg)
  with False show ?thesis by (simp add: ilog2_def)
qed

lemma ilog2_correct:
  assumes "0 < q"
  shows "pow2 (ilog2 q) \<le> q \<and> q < pow2 (ilog2 q + 1)"
proof (cases "1 \<le> q")
  case True
  define n where "n = \<lfloor>q\<rfloor>"
  have n: "0 < n" using True by (simp add: n_def)
  define b where "b = bit_length n"
  have b1: "1 \<le> b" unfolding b_def using n by (rule bit_length_pos)
  have bb: "2 ^ nat (b - 1) \<le> n" "n < 2 ^ nat b"
    using bit_length_bounds [OF n] by (simp_all add: b_def)
  have "(of_int (2 ^ nat (b - 1)) :: rat) \<le> of_int n" using bb(1) by (simp only: of_int_le_iff)
  also have "\<dots> \<le> q" by (simp add: n_def)
  finally have lo: "2 ^ nat (b - 1) \<le> q" by simp
  have "n + 1 \<le> 2 ^ nat b" using bb(2) by simp
  then have "(of_int (n + 1) :: rat) \<le> of_int (2 ^ nat b)" by (simp only: of_int_le_iff)
  moreover have "q < of_int (n + 1)" unfolding n_def by linarith
  ultimately have hi: "q < 2 ^ nat b" by simp
  have "ilog2 q = b - 1" using True by (simp add: ilog2_def b_def n_def)
  with lo hi b1 show ?thesis by (simp add: pow2_def)
next
  case False
  define x where "x = 1 / q"
  have x: "1 < x" using assms False by (simp add: x_def)
  define j where "j = \<lceil>x\<rceil> - 1"
  have j: "0 < j" using x unfolding j_def by linarith
  define b where "b = bit_length j"
  have b1: "1 \<le> b" unfolding b_def using j by (rule bit_length_pos)
  have bb: "2 ^ nat (b - 1) \<le> j" "j < 2 ^ nat b"
    using bit_length_bounds [OF j] by (simp_all add: b_def)
  have "(2::rat) ^ nat (b - 1) = of_int (2 ^ nat (b - 1))" by simp
  also have "\<dots> \<le> of_int j" using bb(1) by (simp only: of_int_le_iff)
  also have "\<dots> < x" unfolding j_def by linarith
  finally have lo: "2 ^ nat (b - 1) < x" .
  have "j + 1 \<le> 2 ^ nat b" using bb(2) by simp
  then have "(of_int (j + 1) :: rat) \<le> of_int (2 ^ nat b)" by (simp only: of_int_le_iff)
  moreover have "x \<le> of_int (j + 1)" unfolding j_def by linarith
  ultimately have hi: "x \<le> 2 ^ nat b" by simp
  have q: "q = 1 / x" using assms by (simp add: x_def)
  have l: "1 / 2 ^ nat b \<le> q" unfolding q using hi x by (intro divide_left_mono) simp_all
  have u: "q < 1 / 2 ^ nat (b - 1)"
    unfolding q using lo x by (intro divide_strict_left_mono mult_pos_pos) simp_all
  have i: "ilog2 q = - b" using False by (simp add: ilog2_def b_def j_def x_def)
  have "pow2 (- b) = 1 / 2 ^ nat b" using b1 by (simp add: pow2_def)
  moreover have "pow2 (- b + 1) = 1 / 2 ^ nat (b - 1)"
  proof (cases "b = 1")
    case True
    then show ?thesis by (simp add: pow2_def)
  next
    case False
    with b1 have "\<not> 0 \<le> - b + 1" "- (- b + 1) = b - 1" by simp_all
    then show ?thesis by (simp only: pow2_def if_False)
  qed
  ultimately show ?thesis using l u by (simp only: i)
qed

lemma pow2_pos: "0 < pow2 e"
  by (simp add: pow2_def)

lemma pow2_add: "pow2 (a + b) = pow2 a * pow2 b"
proof -
  have "pow2 e = 2 powi e" for e
    by (simp add: pow2_def power_int_def field_simps)
  then show ?thesis by (simp add: power_int_add)
qed

lemma round_half_even_bounds:
  "of_int (round_half_even x) \<le> x + 1 / 2" "x - 1 / 2 \<le> of_int (round_half_even x)"
  "\<lfloor>x\<rfloor> \<le> round_half_even x" "round_half_even x \<le> \<lceil>x\<rceil>"
  unfolding round_half_even_def Let_def by (auto; linarith)+

text \<open>
  \<open>fp_round\<close> rounds to nearest: the result is a multiple of the unit in the last
  place, at most half a unit away from the argument, and in the normal range its
  significand has \<open>prec f\<close> bits (or is the power of two that opens the next binade).
\<close>

lemma fp_round_nearest:
  fixes q :: rat and f :: fp_format
  assumes "q \<noteq> 0"
  defines "e \<equiv> max (ilog2 \<bar>q\<bar>) (emin f) - prec f + 1"
  shows "\<bar>fp_round f q - q\<bar> \<le> pow2 e / 2"
    and "fp_round f q = sgn q * of_int (round_half_even (\<bar>q\<bar> / pow2 e)) * pow2 e"
proof -
  define m where "m = round_half_even (\<bar>q\<bar> / pow2 e)"
  show r: "fp_round f q = sgn q * of_int (round_half_even (\<bar>q\<bar> / pow2 e)) * pow2 e"
    using assms(1) by (simp add: fp_round_def e_def Let_def)
  have p: "0 < pow2 e" by (rule pow2_pos)
  have "\<bar>of_int m - \<bar>q\<bar> / pow2 e\<bar> \<le> 1 / 2"
    using round_half_even_bounds(1,2) [of "\<bar>q\<bar> / pow2 e"] unfolding m_def by linarith
  then have "\<bar>of_int m - \<bar>q\<bar> / pow2 e\<bar> * pow2 e \<le> 1 / 2 * pow2 e"
    using p by (intro mult_right_mono) simp_all
  moreover have "(of_int m - \<bar>q\<bar> / pow2 e) * pow2 e = of_int m * pow2 e - \<bar>q\<bar>"
    using p by (simp add: left_diff_distrib)
  then have "\<bar>of_int m * pow2 e - \<bar>q\<bar>\<bar> = \<bar>of_int m - \<bar>q\<bar> / pow2 e\<bar> * \<bar>pow2 e\<bar>"
    by (simp only: abs_mult [symmetric])
  ultimately have "\<bar>of_int m * pow2 e - \<bar>q\<bar>\<bar> \<le> pow2 e / 2"
    using p by simp
  moreover have "\<bar>fp_round f q - q\<bar> = \<bar>of_int m * pow2 e - \<bar>q\<bar>\<bar>"
  proof (cases "0 < q")
    case True
    then show ?thesis by (simp add: r m_def)
  next
    case False
    with assms(1) have "q < 0" by simp
    then have "fp_round f q - q = - (of_int m * pow2 e - \<bar>q\<bar>)" by (simp add: r m_def)
    then show ?thesis by (simp only: abs_minus_cancel)
  qed
  ultimately show "\<bar>fp_round f q - q\<bar> \<le> pow2 e / 2" by simp
qed

lemma fp_round_significand:
  fixes q :: rat and f :: fp_format
  assumes "0 < q" "emin f \<le> ilog2 q"
  defines "e \<equiv> ilog2 q - prec f + 1"
  shows "fp_round f q = of_int (round_half_even (q / pow2 e)) * pow2 e"
    and "2 ^ nat (prec f - 1) \<le> round_half_even (q / pow2 e)"
    and "round_half_even (q / pow2 e) \<le> 2 ^ nat (prec f)"
proof -
  show "fp_round f q = of_int (round_half_even (q / pow2 e)) * pow2 e"
    using assms(1,2) fp_round_nearest(2) [of q f] by (simp add: e_def max_absorb1)
  have p: "0 < pow2 e" by (rule pow2_pos)
  have pf: "0 < prec f" by (cases f) simp_all
  have "pow2 (ilog2 q) = pow2 (prec f - 1) * pow2 e" "pow2 (ilog2 q + 1) = pow2 (prec f) * pow2 e"
    by (simp_all add: e_def flip: pow2_add)
  with ilog2_correct [OF assms(1)]
  have "pow2 (prec f - 1) * pow2 e \<le> q" "q < pow2 (prec f) * pow2 e" by simp_all
  then have b: "pow2 (prec f - 1) \<le> q / pow2 e" "q / pow2 e < pow2 (prec f)"
    using p by (simp_all add: pos_le_divide_eq pos_divide_less_eq)
  have i: "pow2 (prec f - 1) = of_int (2 ^ nat (prec f - 1))" "pow2 (prec f) = of_int (2 ^ nat (prec f))"
    using pf by (simp_all add: pow2_def)
  from b(1) have "2 ^ nat (prec f - 1) \<le> \<lfloor>q / pow2 e\<rfloor>" unfolding i by (simp only: le_floor_iff)
  with round_half_even_bounds(3) [of "q / pow2 e"]
  show "2 ^ nat (prec f - 1) \<le> round_half_even (q / pow2 e)" by linarith
  from b(2) have "\<lceil>q / pow2 e\<rceil> \<le> 2 ^ nat (prec f)" unfolding i by (simp only: ceiling_le_iff)
  with round_half_even_bounds(4) [of "q / pow2 e"]
  show "round_half_even (q / pow2 e) \<le> 2 ^ nat (prec f)" by linarith
qed

text \<open>
  Evaluation on numerals. Ties go to the even significand, also below the normal range.
\<close>

lemma floor_rat_numeral_div: "\<lfloor>(numeral a :: rat) / numeral b\<rfloor> = numeral a div numeral b"
  using floor_divide_of_int_eq [of "numeral a" "numeral b", where ?'a = rat] by simp

lemma ceiling_rat_numeral_div: "\<lceil>(numeral a :: rat) / numeral b\<rceil> = - ((- numeral a) div numeral b)"
  using ceiling_divide_eq_div [of "numeral a" "numeral b", where ?'a = rat] by simp

lemmas fp_eval = fp_round_def ilog2_def round_half_even_def pow2_def Let_def fp_trunc_def
  floor_rat_numeral_div ceiling_rat_numeral_div bit_length_numeral bit_length_0 bit_length_1

lemma fp_round_examples:
  "fp_round Binary32 (1 / 3) = 11184811 / 33554432"
  "fp_round Binary32 16777217 = 16777216"
  "fp_round Binary32 16777219 = 16777220"
  "fp_round Binary32 (- 16777219) = - 16777220"
  "fp_round Binary64 (1 / 10) = 3602879701896397 / 36028797018963968"
  "fp_round Binary32 (5 / 2 ^ 151) = 1 / 2 ^ 149"
  "fp_round Binary32 (3 / 2 ^ 150) = 2 / 2 ^ 149"
  by (simp_all add: fp_eval)

text \<open>
  Below \<open>256\<close> one unit in the last place is at most \<open>2 ^ - 16\<close> in either format.
  Integers are then on the grid, so rounding never crosses one, and the result exceeds
  the argument by at most \<open>2 ^ - 17\<close>.
\<close>

lemma fp_round_grid:
  assumes "0 < q" "q < 256"
  obtains d :: nat where "16 \<le> d" "fp_round f q = of_int (round_half_even (q * 2 ^ d)) / 2 ^ d"
proof -
  define e where "e = max (ilog2 q) (emin f) - prec f + 1"
  have "ilog2 q \<le> 7" using assms by (rule ilog2_le_7)
  then have e: "e \<le> - 16" unfolding e_def by (cases f) simp_all
  define d where "d = nat (- e)"
  have d: "16 \<le> d" using e by (simp add: d_def)
  have "pow2 e = 1 / 2 ^ d" using e by (simp add: pow2_def d_def)
  then have "fp_round f q = of_int (round_half_even (q * 2 ^ d)) / 2 ^ d"
    using assms(1) by (simp add: fp_round_def e_def [symmetric])
  with d show thesis by (rule that)
qed

lemma fp_round_ge_int:
  assumes "0 \<le> q" "q < 256" "of_int m \<le> q"
  shows "of_int m \<le> fp_round f q"
proof (cases "q = 0")
  case True
  with assms(3) show ?thesis by (simp add: fp_round_def)
next
  case False
  with assms(1) have "0 < q" by simp
  from this assms(2) obtain d :: nat
    where d: "fp_round f q = of_int (round_half_even (q * 2 ^ d)) / 2 ^ d"
    by (rule fp_round_grid)
  have "of_int (m * 2 ^ d) \<le> q * 2 ^ d" using assms(3) by simp
  then have "m * 2 ^ d \<le> \<lfloor>q * 2 ^ d\<rfloor>" by (simp only: le_floor_iff)
  also have "\<dots> \<le> round_half_even (q * 2 ^ d)" by (rule round_half_even_bounds)
  finally have "(of_int (m * 2 ^ d) :: rat) \<le> of_int (round_half_even (q * 2 ^ d))"
    by (simp only: of_int_le_iff)
  then have "(of_int m :: rat) * 2 ^ d \<le> of_int (round_half_even (q * 2 ^ d))" by simp
  then show ?thesis unfolding d by (simp add: pos_le_divide_eq)
qed

lemma fp_round_le_int:
  assumes "0 \<le> q" "q < 256" "q \<le> of_int m"
  shows "fp_round f q \<le> of_int m"
proof (cases "q = 0")
  case True
  with assms(3) show ?thesis by (simp add: fp_round_def)
next
  case False
  with assms(1) have "0 < q" by simp
  from this assms(2) obtain d :: nat
    where d: "fp_round f q = of_int (round_half_even (q * 2 ^ d)) / 2 ^ d"
    by (rule fp_round_grid)
  have "q * 2 ^ d \<le> of_int (m * 2 ^ d)" using assms(3) by simp
  then have "\<lceil>q * 2 ^ d\<rceil> \<le> m * 2 ^ d" by (simp only: ceiling_le_iff)
  with round_half_even_bounds(4) [of "q * 2 ^ d"]
  have "round_half_even (q * 2 ^ d) \<le> m * 2 ^ d" by linarith
  then have "(of_int (round_half_even (q * 2 ^ d)) :: rat) \<le> of_int (m * 2 ^ d)"
    by (simp only: of_int_le_iff)
  then have "(of_int (round_half_even (q * 2 ^ d)) :: rat) \<le> of_int m * 2 ^ d" by simp
  then show ?thesis unfolding d by (simp add: pos_divide_le_eq)
qed

lemma fp_round_upper:
  assumes "0 \<le> q" "q < 256"
  shows "fp_round f q \<le> q + 1 / 2 ^ 17"
proof (cases "q = 0")
  case True
  then show ?thesis by (simp add: fp_round_def)
next
  case False
  with assms(1) have "0 < q" by simp
  from this assms(2) obtain d :: nat
    where d16: "16 \<le> d" and d: "fp_round f q = of_int (round_half_even (q * 2 ^ d)) / 2 ^ d"
    by (rule fp_round_grid)
  have "of_int (round_half_even (q * 2 ^ d)) \<le> q * 2 ^ d + 1 / 2"
    by (rule round_half_even_bounds)
  then have "fp_round f q \<le> (q * 2 ^ d + 1 / 2) / 2 ^ d"
    unfolding d by (simp add: divide_right_mono)
  also have "\<dots> = q + 1 / 2 ^ Suc d" by (simp add: field_simps)
  also have "\<dots> \<le> q + 1 / 2 ^ 17"
  proof -
    have "(2::rat) ^ 17 \<le> 2 ^ Suc d" using d16 by (intro power_increasing) simp_all
    then have "1 / (2::rat) ^ Suc d \<le> 1 / 2 ^ 17" by (intro divide_left_mono) simp_all
    then show ?thesis by simp
  qed
  finally show ?thesis .
qed

section \<open>The scaling of the sample\<close>

text \<open>
  The constant \<open>(PWM_RANGE / 255.0)\<close> in both formats: it is not below the exact
  quotient, and exceeds it by less than \<open>2 ^ - 29\<close>.
\<close>

lemma pwm_scale_Binary32: "pwm_scale Binary32 = 16185079 / 33554432"
  by (simp add: pwm_scale_def double_div_def PWM_RANGE_def PWM_HIGH_def PWM_LOW_def fp_eval)

lemma pwm_scale_Binary64: "pwm_scale Binary64 = 8689298104573663 / 18014398509481984"
  by (simp add: pwm_scale_def double_div_def PWM_RANGE_def PWM_HIGH_def PWM_LOW_def fp_eval)

lemma pwm_scale_bounds: "123 / 255 \<le> pwm_scale dbl" "pwm_scale dbl \<le> 123 / 255 + 1 / 2 ^ 29"
  by (cases dbl; simp add: pwm_scale_Binary32 pwm_scale_Binary64)+

text \<open>
  The sample converts exactly. The exact product \<open>s * 123 / 255\<close> is a multiple of
  \<open>1 / 255\<close>, so it lies at least that far below the next integer, which is more than
  the three roundings and the error of the constant add up to. Hence the truncated
  result is the truncated exact value.
\<close>

lemma float_of_uint8_exact: "float_of_uint8 a = of_int (uint a)"
proof -
  define n where "n = uint a"
  have "0 \<le> n" "n < 256" using uint_lt2p [of a] by (simp_all add: n_def)
  then have n: "(0::rat) \<le> of_int n" "(of_int n :: rat) < 256" by simp_all
  have "fp_round Binary32 (of_int n) \<le> of_int n" using n by (rule fp_round_le_int) simp
  moreover have "of_int n \<le> fp_round Binary32 (of_int n)" using n by (rule fp_round_ge_int) simp
  ultimately have "fp_round Binary32 (of_int n) = of_int n" by (rule antisym)
  then show ?thesis by (simp only: float_of_uint8_def n_def)
qed

lemma scale_readout_bounds:
  fixes a :: "8 word"
  defines "m \<equiv> uint a * 123 div 255"
  shows "of_int (123 + m) \<le> scale_readout dbl a \<and> scale_readout dbl a < of_int (123 + m) + 1"
proof -
  define n where "n = uint a"
  define c where "c = pwm_scale dbl"
  define P :: rat where "P = of_int n * (123 / 255)"
  define Q :: rat where "Q = of_int n * c"
  define M :: rat where "M = of_int m"
  define y1 where "y1 = fp_round dbl Q"
  define y2 where "y2 = fp_round Binary32 y1"
  define y3 where "y3 = fp_round Binary32 (y2 + 123)"
  have n: "0 \<le> n" "n \<le> 255" using uint_lt2p [of a] by (simp_all add: n_def)
  have nr: "(0::rat) \<le> of_int n" "(of_int n :: rat) \<le> 255" using n by simp_all
  have c: "123 / 255 \<le> c" "c \<le> 123 / 255 + 1 / 2 ^ 29"
    unfolding c_def by (rule pwm_scale_bounds)+
  have m: "m = n * 123 div 255" by (simp add: m_def n_def)
  have m0: "0 \<le> m" using n by (simp add: m pos_imp_zdiv_nonneg_iff)
  have "n * 123 div 255 \<le> 255 * 123 div 255" using n by (intro zdiv_mono1) simp_all
  then have m123: "m \<le> 123" by (simp add: m)
  have M0: "0 \<le> M" "M \<le> 123" using m0 m123 by (simp_all add: M_def)
  have "255 * m \<le> n * 123" "n * 123 \<le> 255 * m + 254" unfolding m by presburger+
  then have "(of_int (255 * m) :: rat) \<le> of_int (n * 123)"
    and "(of_int (n * 123) :: rat) \<le> of_int (255 * m + 254)"
    by (simp_all only: of_int_le_iff)
  then have P: "M \<le> P" "P \<le> M + 254 / 255" by (simp_all add: P_def M_def)
  have PQ: "P \<le> Q" unfolding P_def Q_def using c(1) nr(1) by (rule mult_left_mono)
  have "Q \<le> of_int n * (123 / 255 + 1 / 2 ^ 29)"
    unfolding Q_def using c(2) nr(1) by (rule mult_left_mono)
  also have "\<dots> = P + of_int n * (1 / 2 ^ 29)" by (simp add: P_def algebra_simps)
  also have "\<dots> \<le> P + 255 * (1 / 2 ^ 29)"
    using nr(2) by (intro add_left_mono mult_right_mono) simp_all
  also have "\<dots> \<le> P + 1 / 100000" by simp
  finally have QP: "Q \<le> P + 1 / 100000" .
  have Q: "0 \<le> Q" "Q < 256" "M \<le> Q" using M0 P PQ QP by linarith+
  have "of_int m \<le> y1" unfolding y1_def using Q(1,2) Q(3) [unfolded M_def] by (rule fp_round_ge_int)
  then have y1_lo: "M \<le> y1" by (simp only: M_def)
  have "y1 \<le> Q + 1 / 2 ^ 17" unfolding y1_def using Q(1,2) by (rule fp_round_upper)
  then have y1_hi: "y1 \<le> Q + 1 / 100000" by simp
  have y1: "0 \<le> y1" "y1 < 256" using M0 P QP y1_lo y1_hi by linarith+
  have "of_int m \<le> y2" unfolding y2_def using y1 y1_lo [unfolded M_def] by (rule fp_round_ge_int)
  then have y2_lo: "M \<le> y2" by (simp only: M_def)
  have "y2 \<le> y1 + 1 / 2 ^ 17" unfolding y2_def using y1 by (rule fp_round_upper)
  then have y2_hi: "y2 \<le> y1 + 1 / 100000" by simp
  have s: "0 \<le> y2 + 123" "y2 + 123 < 256" using M0 P QP y1_hi y2_lo y2_hi by linarith+
  have "of_int (123 + m) \<le> y2 + 123" using y2_lo by (simp add: M_def)
  with s have "of_int (123 + m) \<le> y3" unfolding y3_def by (rule fp_round_ge_int)
  then have y3_lo: "123 + M \<le> y3" by (simp add: M_def)
  have "y3 \<le> y2 + 123 + 1 / 2 ^ 17" unfolding y3_def using s by (rule fp_round_upper)
  then have y3_hi: "y3 \<le> y2 + 123 + 1 / 100000" by simp
  have y3_lt: "y3 < 123 + M + 1" using P QP y1_hi y2_hi y3_hi by linarith
  have y3: "scale_readout dbl a = y3"
    by (simp only: scale_readout_def Let_def float_of_uint8_exact float_mul_double_def
        float_add_def y3_def y2_def y1_def Q_def c_def n_def PWM_LOW_def of_int_numeral)
  show ?thesis using y3_lo y3_lt by (simp add: y3 M_def)
qed

lemma fp_trunc_scale_readout: "fp_trunc (scale_readout dbl a) = 123 + uint a * 123 div 255"
proof -
  let ?m = "uint a * 123 div 255"
  have b: "of_int (123 + ?m) \<le> scale_readout dbl a" "scale_readout dbl a < of_int (123 + ?m) + 1"
    using scale_readout_bounds [of a dbl] by simp_all
  have "0 \<le> ?m" by (simp add: pos_imp_zdiv_nonneg_iff)
  then have "(0::rat) \<le> of_int (123 + ?m)" by (simp only: of_int_0_le_iff)
  with b(1) have "0 \<le> scale_readout dbl a" by linarith
  then have "fp_trunc (scale_readout dbl a) = \<lfloor>scale_readout dbl a\<rfloor>" by (simp add: fp_trunc_def)
  also have "\<dots> = 123 + ?m" using b by (rule floor_unique)
  finally show ?thesis .
qed

section \<open>The loop body, case by case\<close>

lemma switch_bit: "drop_bit (Suc 0) (v :: 8 word) AND 1 = (if bit v (Suc 0) then 1 else 0)"
  by (simp add: and_one_eq mod_2_eq_odd bit_iff_odd_drop_bit)

lemma loop_body_center_edge:
  assumes "bit (PINA st) 1" "prev_sw_state st \<noteq> SET_CENTER"
  shows "loop_body dbl st = st
    \<lparr>center_manual_sw := SET_CENTER,
     OCR1A := word_of_int PWM_CENTER, OCR1A_writes := OCR1A_writes st + 1,
     prev_sw_state := SET_CENTER\<rparr>"
  using assms by (simp add: loop_body_def switch_bit Let_def SET_CENTER_def SET_MANUAL_def)

lemma loop_body_center_hold:
  assumes "bit (PINA st) 1" "prev_sw_state st = SET_CENTER"
  shows "loop_body dbl st = st\<lparr>center_manual_sw := SET_CENTER, prev_sw_state := SET_CENTER\<rparr>"
  using assms by (simp add: loop_body_def switch_bit Let_def SET_CENTER_def SET_MANUAL_def)

lemma loop_body_manual:
  assumes "\<not> bit (PINA st) 1"
  shows "loop_body dbl st = st
    \<lparr>center_manual_sw := SET_MANUAL,
     temp := scale_readout dbl (analog_readout st),
     OCR1A := ucast (uint8_of_float (scale_readout dbl (analog_readout st))),
     OCR1A_writes := OCR1A_writes st + 1,
     prev_sw_state := SET_MANUAL\<rparr>"
  using assms by (simp add: loop_body_def switch_bit Let_def SET_CENTER_def SET_MANUAL_def)

lemma scaled_sample_range: "0 \<le> uint a * 123 div 255" "uint (a :: 8 word) * 123 div 255 \<le> 123"
proof -
  show "0 \<le> uint a * 123 div 255" by (simp add: pos_imp_zdiv_nonneg_iff)
  have "uint a \<le> 255" using uint_lt2p [of a] by simp
  then have "uint a * 123 div 255 \<le> 255 * 123 div 255" by (intro zdiv_mono1) simp_all
  then show "uint a * 123 div 255 \<le> 123" by simp
qed

lemma uint_uint8_of_float_scale:
  "uint (uint8_of_float (scale_readout dbl a)) = 123 + uint a * 123 div 255"
proof -
  have "0 \<le> 123 + uint a * 123 div 255" "123 + uint a * 123 div 255 < 2 ^ 8"
    using scaled_sample_range [of a] by simp_all
  then have "uint (word_of_int (123 + uint a * 123 div 255) :: 8 word) = 123 + uint a * 123 div 255"
    by (simp only: uint_word_of_int) simp
  then show ?thesis by (simp only: uint8_of_float_def fp_trunc_scale_readout)
qed

lemma uint_manual_OCR1A:
  "uint (ucast (uint8_of_float (scale_readout dbl a)) :: 16 word) = 123 + uint a * 123 div 255"
proof -
  have "uint (ucast (uint8_of_float (scale_readout dbl a)) :: 16 word)
      = uint (uint8_of_float (scale_readout dbl a))"
    by (simp add: uint_up_ucast is_up)
  then show ?thesis by (simp only: uint_uint8_of_float_scale)
qed

lemma floor_scale_formula:
  "\<lfloor>of_int PWM_LOW + of_int n * of_int (PWM_HIGH - PWM_LOW) / (255 :: rat)\<rfloor> = 123 + n * 123 div 255"
proof -
  have "\<lfloor>(of_int (n * 123) :: rat) / of_int 255\<rfloor> = n * 123 div 255"
    by (rule floor_divide_of_int_eq)
  then have "\<lfloor>(of_int n :: rat) * 123 / 255\<rfloor> = n * 123 div 255" by simp
  moreover have "\<lfloor>123 + of_int n * 123 / (255 :: rat)\<rfloor> = 123 + \<lfloor>of_int n * 123 / (255 :: rat)\<rfloor>"
    using floor_add_int [of "of_int n * 123 / (255 :: rat)" 123] by (simp add: add.commute)
  ultimately show ?thesis by (simp add: PWM_LOW_def PWM_HIGH_def)
qed

text \<open>
  Claim C1. In an iteration that reads the switch as Manual, the compare register is
  written with \<open>floor (PWM_LOW + s * (PWM_HIGH - PWM_LOW) / 255)\<close> for the sample
  \<open>s\<close> held in \<open>analog_readout\<close>, whatever the format of \<open>double\<close>: the sample
  \<open>0\<close> gives \<open>123\<close>, \<open>128\<close> gives \<open>184\<close> (truncated from 184.74, not rounded
  to 185) and \<open>255\<close> gives exactly \<open>246\<close>.
\<close>

theorem manual_pulse_width:
  assumes "\<not> bit (PINA st) 1"
  shows "uint (OCR1A (loop_body dbl st)) =
      \<lfloor>of_int PWM_LOW + of_int (uint (analog_readout st)) * of_int (PWM_HIGH - PWM_LOW) / (255 :: rat)\<rfloor>
    \<and> (analog_readout st = 0 \<longrightarrow> OCR1A (loop_body dbl st) = 123)
    \<and> (analog_readout st = 128 \<longrightarrow> OCR1A (loop_body dbl st) = 184)
    \<and> (analog_readout st = 255 \<longrightarrow> OCR1A (loop_body dbl st) = 246)"
proof -
  let ?a = "analog_readout st"
  have v: "uint (OCR1A (loop_body dbl st)) = 123 + uint ?a * 123 div 255"
    using assms by (simp add: loop_body_manual uint_manual_OCR1A)
  have w: "OCR1A (loop_body dbl st) = word_of_int (123 + uint ?a * 123 div 255)"
    using v by (metis word_of_int_uint)
  show ?thesis
    using v w by (simp only: floor_scale_formula) simp
qed

theorem manual_pulse_width_witness:
  "\<not> bit (PINA (power_on\<lparr>analog_readout := 128\<rparr>)) 1 \<and>
   OCR1A (loop_body Binary32 (power_on\<lparr>analog_readout := 128\<rparr>)) = 184"
  using manual_pulse_width [of "power_on\<lparr>analog_readout := 128\<rparr>" Binary32]
  by (simp add: power_on_def)


section \<open>What the hardware events and the delay leave unchanged\<close>

lemma OCR1A_hw_step [simp]:
  "OCR1A (hw_step e st) = OCR1A st" "OCR1A_writes (hw_step e st) = OCR1A_writes st"
  "prev_sw_state (hw_step e st) = prev_sw_state st"
  "center_manual_sw (hw_step e st) = center_manual_sw st"
  by (cases e; simp add: adc_interrupt_def ADC_vect_def)+

lemma OCR1A_hw_steps [simp]:
  "OCR1A (hw_steps es st) = OCR1A st" "OCR1A_writes (hw_steps es st) = OCR1A_writes st"
  "prev_sw_state (hw_steps es st) = prev_sw_state st"
  "center_manual_sw (hw_steps es st) = center_manual_sw st"
  by (induction es arbitrary: st; simp)+

lemma OCR1A_delay_ms [simp]:
  "OCR1A (delay_ms ms env st) = OCR1A st" "OCR1A_writes (delay_ms ms env st) = OCR1A_writes st"
  "prev_sw_state (delay_ms ms env st) = prev_sw_state st"
  "center_manual_sw (delay_ms ms env st) = center_manual_sw st"
  by (induction ms arbitrary: env st; simp add: wait_1ms_def)+

lemma pwm_in_range_loop_body:
  assumes "pwm_in_range st"
  shows "pwm_in_range (loop_body dbl st)"
proof (cases "bit (PINA st) 1")
  case False
  then have "uint (OCR1A (loop_body dbl st)) = 123 + uint (analog_readout st) * 123 div 255"
    by (simp add: loop_body_manual uint_manual_OCR1A)
  then show ?thesis
    using scaled_sample_range [of "analog_readout st"]
    by (simp add: pwm_in_range_def PWM_LOW_def PWM_HIGH_def)
next
  case True
  show ?thesis
  proof (cases "prev_sw_state st = SET_CENTER")
    case True
    with \<open>bit (PINA st) 1\<close> assms show ?thesis
      by (simp add: loop_body_center_hold pwm_in_range_def)
  next
    case False
    with \<open>bit (PINA st) 1\<close> show ?thesis
      by (simp add: loop_body_center_edge pwm_in_range_def PWM_LOW_def PWM_HIGH_def PWM_CENTER_def)
  qed
qed

lemma pwm_in_range_step: "pwm_in_range st \<Longrightarrow> pwm_in_range (step dbl e st)"
  by (cases e) (simp_all add: pwm_in_range_loop_body, simp add: pwm_in_range_def)

lemma pwm_in_range_run: "pwm_in_range st \<Longrightarrow> pwm_in_range (run dbl evs st)"
  by (induction evs arbitrary: st) (simp_all add: pwm_in_range_step)

lemma OCR1A_main_init [simp]: "OCR1A (main_init st) = 184"
  by (simp add: main_init_def sei_def ioinit_def PWM_INIT_def PWM_CENTER_def)

lemma pwm_in_range_loop_entry: "pwm_in_range (delay_ms ms env (main_init st))"
  by (simp add: pwm_in_range_def PWM_LOW_def PWM_HIGH_def)

text \<open>
  Claim C2. From the end of the initialisation on, through the settling delay and
  after every sequence of pin changes, conversions and loop iterations, the compare
  register holds a value from \<open>PWM_LOW = 123\<close> to \<open>PWM_HIGH = 246\<close> inclusive, and
  so never \<open>0\<close>.
\<close>

theorem pulse_width_in_range_always:
  "PWM_LOW \<le> uint (OCR1A (delay_ms ms env (main_init (startup hw)))) \<and>
   uint (OCR1A (delay_ms ms env (main_init (startup hw)))) \<le> PWM_HIGH \<and>
   PWM_LOW \<le> uint (OCR1A (main dbl env evs hw)) \<and>
   uint (OCR1A (main dbl env evs hw)) \<le> PWM_HIGH \<and>
   OCR1A (main dbl env evs hw) \<noteq> 0 \<and>
   PWM_LOW = 123 \<and> PWM_HIGH = 246"
proof -
  have "pwm_in_range (delay_ms ms env (main_init (startup hw)))"
    by (rule pwm_in_range_loop_entry)
  moreover have r: "pwm_in_range (main dbl env evs hw)"
    unfolding main_def by (intro pwm_in_range_run pwm_in_range_loop_entry)
  moreover have "OCR1A (main dbl env evs hw) \<noteq> 0"
  proof
    assume "OCR1A (main dbl env evs hw) = 0"
    with r show False by (simp add: pwm_in_range_def PWM_LOW_def)
  qed
  ultimately show ?thesis by (simp add: pwm_in_range_def PWM_LOW_def PWM_HIGH_def)
qed

text \<open>
  Claim C3. In an iteration that reads the switch as Center: if the previous mode was
  not Center, the compare register is written with \<open>PWM_CENTER = 184\<close> in this very
  iteration; if the previous mode was Center, no assignment to the register is executed
  and its value stays.
\<close>

theorem center_edge_write:
  assumes "bit (PINA st) 1"
  shows "(prev_sw_state st \<noteq> SET_CENTER \<longrightarrow>
            OCR1A (loop_body dbl st) = word_of_int PWM_CENTER \<and>
            OCR1A (loop_body dbl st) = 184 \<and>
            OCR1A_writes (loop_body dbl st) = OCR1A_writes st + 1) \<and>
         (prev_sw_state st = SET_CENTER \<longrightarrow>
            OCR1A (loop_body dbl st) = OCR1A st \<and>
            OCR1A_writes (loop_body dbl st) = OCR1A_writes st)"
  using assms by (simp add: loop_body_center_edge loop_body_center_hold PWM_CENTER_def)

theorem center_edge_write_witness:
  "bit (PINA (power_on\<lparr>PINA := 2\<rparr>)) 1 \<and>
   prev_sw_state (power_on\<lparr>PINA := 2\<rparr>) \<noteq> SET_CENTER \<and>
   OCR1A (loop_body Binary32 (power_on\<lparr>PINA := 2\<rparr>)) = 184 \<and>
   OCR1A_writes (loop_body Binary32 (power_on\<lparr>PINA := 2\<rparr>)) = 1 \<and>
   bit (PINA (power_on\<lparr>PINA := 2, prev_sw_state := 1\<rparr>)) 1 \<and>
   prev_sw_state (power_on\<lparr>PINA := 2, prev_sw_state := 1\<rparr>) = SET_CENTER \<and>
   OCR1A (loop_body Binary32 (power_on\<lparr>PINA := 2, prev_sw_state := 1\<rparr>)) = 0 \<and>
   OCR1A_writes (loop_body Binary32 (power_on\<lparr>PINA := 2, prev_sw_state := 1\<rparr>)) = 0"
  using center_edge_write [of "power_on\<lparr>PINA := 2\<rparr>" Binary32]
    center_edge_write [of "power_on\<lparr>PINA := 2, prev_sw_state := 1\<rparr>" Binary32]
  by (simp add: power_on_def SET_CENTER_def PWM_CENTER_def)


lemma PINA_loop_body [simp]: "PINA (loop_body dbl st) = PINA st"
  by (simp add: loop_body_def Let_def)

lemma hold_center_run:
  assumes "bit (PINA st) 1" "prev_sw_state st = SET_CENTER" "stays_center evs"
  shows "OCR1A (run dbl evs st) = OCR1A st \<and> OCR1A_writes (run dbl evs st) = OCR1A_writes st
    \<and> prev_sw_state (run dbl evs st) = SET_CENTER \<and> bit (PINA (run dbl evs st)) 1"
  using assms
proof (induction evs arbitrary: st)
  case Nil
  then show ?case by simp
next
  case (Cons e evs)
  show ?case
  proof (cases e)
    case Iteration
    let ?st = "loop_body dbl st"
    have "bit (PINA ?st) 1" "prev_sw_state ?st = SET_CENTER"
      and "OCR1A ?st = OCR1A st" "OCR1A_writes ?st = OCR1A_writes st"
      using Cons.prems(1,2) by (simp_all add: loop_body_center_hold)
    moreover have "stays_center evs" using Cons.prems(3) Iteration by simp
    ultimately show ?thesis using Cons.IH [of ?st] Iteration by simp
  next
    case (Hw h)
    show ?thesis
    proof (cases h)
      case (Pin_change v)
      let ?st = "hw_step h st"
      have "bit (PINA ?st) 1" "stays_center evs"
        using Cons.prems(3) Hw Pin_change by simp_all
      moreover have "prev_sw_state ?st = SET_CENTER" using Cons.prems(2) by simp
      ultimately show ?thesis using Cons.IH [of ?st] Hw by simp
    next
      case (Conversion c)
      let ?st = "hw_step h st"
      have "bit (PINA ?st) 1"
        using Cons.prems(1) Conversion by (simp add: adc_interrupt_def ADC_vect_def)
      moreover have "stays_center evs" using Cons.prems(3) Hw Conversion by simp
      moreover have "prev_sw_state ?st = SET_CENTER" using Cons.prems(2) by simp
      ultimately show ?thesis using Cons.IH [of ?st] Hw by simp
    qed
  qed
qed

text \<open>
  Claim C4. With the previous mode Center and the switch in the Center position, an
  iteration leaves the compare register as it is, and so does every sequence of
  iterations, conversions and pin changes during which the switch stays Center: no
  assignment to the register is executed, and a register that holds \<open>PWM_CENTER\<close>
  keeps it.
\<close>

theorem center_hold_unchanged:
  assumes "bit (PINA st) 1" "prev_sw_state st = SET_CENTER" "stays_center evs"
  shows "OCR1A (loop_body dbl st) = OCR1A st \<and>
         OCR1A (run dbl evs st) = OCR1A st \<and>
         OCR1A_writes (run dbl evs st) = OCR1A_writes st \<and>
         (OCR1A st = word_of_int PWM_CENTER \<longrightarrow> OCR1A (run dbl evs st) = word_of_int PWM_CENTER)"
  using assms hold_center_run [of st evs dbl] by (simp add: loop_body_center_hold)

theorem center_hold_unchanged_witness:
  "bit (PINA (power_on\<lparr>PINA := 2, OCR1A := 184, prev_sw_state := 1\<rparr>)) 1 \<and>
   prev_sw_state (power_on\<lparr>PINA := 2, OCR1A := 184, prev_sw_state := 1\<rparr>) = SET_CENTER \<and>
   stays_center [Iteration, Hw (Conversion 700), Iteration, Hw (Pin_change 3), Iteration] \<and>
   OCR1A (run Binary32 [Iteration, Hw (Conversion 700), Iteration, Hw (Pin_change 3), Iteration]
     (power_on\<lparr>PINA := 2, OCR1A := 184, prev_sw_state := 1\<rparr>)) = 184"
  using center_hold_unchanged [of "power_on\<lparr>PINA := 2, OCR1A := 184, prev_sw_state := 1\<rparr>"
      "[Iteration, Hw (Conversion 700), Iteration, Hw (Pin_change 3), Iteration]" Binary32]
  by (simp add: power_on_def SET_CENTER_def PWM_CENTER_def)

text \<open>
  Claim C5. Every iteration that reads the switch as Manual assigns the compare
  register the value computed from the current sample. The result does not depend on
  the previous mode, nor on the value the register held (a center value left by a
  Center phase does not persist), and the assignment is executed even when the sample
  has not changed.
\<close>

theorem manual_recomputed_every_iteration:
  assumes "\<not> bit (PINA st) 1"
  shows "OCR1A (loop_body dbl st) = ucast (uint8_of_float (scale_readout dbl (analog_readout st))) \<and>
         uint (OCR1A (loop_body dbl st)) =
           \<lfloor>of_int PWM_LOW + of_int (uint (analog_readout st)) * of_int (PWM_HIGH - PWM_LOW) / (255 :: rat)\<rfloor> \<and>
         OCR1A_writes (loop_body dbl st) = OCR1A_writes st + 1 \<and>
         OCR1A (loop_body dbl (st\<lparr>OCR1A := w, prev_sw_state := p, center_manual_sw := q\<rparr>))
           = OCR1A (loop_body dbl st)"
proof -
  let ?st' = "st\<lparr>OCR1A := w, prev_sw_state := p, center_manual_sw := q\<rparr>"
  have "\<not> bit (PINA ?st') 1" using assms by simp
  then have "OCR1A (loop_body dbl ?st') = OCR1A (loop_body dbl st)"
    using assms by (simp add: loop_body_manual)
  moreover have "uint (OCR1A (loop_body dbl st)) =
      \<lfloor>of_int PWM_LOW + of_int (uint (analog_readout st)) * of_int (PWM_HIGH - PWM_LOW) / (255 :: rat)\<rfloor>"
    unfolding floor_scale_formula using assms by (simp add: loop_body_manual uint_manual_OCR1A)
  moreover have "OCR1A (loop_body dbl st) = ucast (uint8_of_float (scale_readout dbl (analog_readout st)))"
    and "OCR1A_writes (loop_body dbl st) = OCR1A_writes st + 1"
    using assms by (simp_all add: loop_body_manual)
  ultimately show ?thesis by (intro conjI)
qed

theorem manual_recomputed_every_iteration_witness:
  "\<not> bit (PINA (power_on\<lparr>OCR1A := 184, analog_readout := 200, prev_sw_state := 1\<rparr>)) 1 \<and>
   uint (OCR1A (loop_body Binary32 (power_on\<lparr>OCR1A := 184, analog_readout := 200, prev_sw_state := 1\<rparr>))) = 219 \<and>
   OCR1A_writes (loop_body Binary32 (power_on\<lparr>OCR1A := 184, analog_readout := 200, prev_sw_state := 1\<rparr>)) = 1"
  using manual_recomputed_every_iteration [where st = "power_on\<lparr>OCR1A := 184, analog_readout := 200, prev_sw_state := 1\<rparr>"
      and dbl = Binary32 and w = 0 and p = 0 and q = 0]
  by (simp add: power_on_def PWM_LOW_def PWM_HIGH_def floor_rat_numeral_div uint_manual_OCR1A)

text \<open>
  Claim C6. Each iteration maps bit 1 of \<open>PINA\<close> to the mode, set to
  \<open>SET_CENTER = 1\<close> and clear to \<open>SET_MANUAL = 0\<close>; no other bit of the port
  matters; and at the end of the iteration \<open>prev_sw_state\<close> holds the mode just read.
\<close>

theorem switch_mode_mapping:
  "center_manual_sw (loop_body dbl st) = (if bit (PINA st) 1 then SET_CENTER else SET_MANUAL) \<and>
   prev_sw_state (loop_body dbl st) = center_manual_sw (loop_body dbl st) \<and>
   SET_CENTER = 1 \<and> SET_MANUAL = 0 \<and>
   center_manual_sw (loop_body dbl (st\<lparr>PINA := PINA st AND 0b00000010\<rparr>))
     = center_manual_sw (loop_body dbl st)"
  by (simp add: loop_body_def Let_def switch_bit SET_CENTER_def SET_MANUAL_def bit_simps)


section \<open>Startup, the interrupt handler and the first iteration\<close>

lemma delay_ms_idle: "delay_ms ms (\<lambda>k. []) st = st\<lparr>ms_waited := ms_waited st + ms\<rparr>"
  by (induction ms arbitrary: st) (simp_all add: wait_1ms_def)

lemma run_append: "run dbl (xs @ ys) st = run dbl ys (run dbl xs st)"
  by (induction xs arbitrary: st) simp_all

lemma run_hw: "run dbl (map Hw es) st = hw_steps es st"
  by (induction es arbitrary: st) simp_all

subsection \<open>Traces of statement sequences\<close>

lemma exec_trace_length [simp]: "length (exec_trace fs env st) = length fs"
  by (induction fs arbitrary: env st) simp_all

lemma exec_trace_take: "take n (exec_trace fs env st) = exec_trace (take n fs) env st"
proof (induction fs arbitrary: n env st)
  case Nil
  show ?case by simp
next
  case (Cons f fs)
  then show ?case by (cases n) simp_all
qed

lemma exec_trace_drop:
  "drop n (exec_trace fs env st)
     = exec_trace (drop n fs) (\<lambda>k. env (n + k)) (last (st # exec_trace (take n fs) env st))"
proof (induction fs arbitrary: n env st)
  case Nil
  show ?case by simp
next
  case (Cons f fs)
  show ?case
  proof (cases n)
    case 0
    then show ?thesis by simp
  next
    case (Suc m)
    then show ?thesis using Cons.IH [of m "\<lambda>k. env (Suc k)"] by simp
  qed
qed

lemma hw_steps_invariant:
  assumes "P st" and "\<And>e s. P s \<Longrightarrow> P (hw_step e s)"
  shows "P (hw_steps es st)"
  using assms(1) by (induction es arbitrary: st) (simp_all add: assms(2))

lemma trace_invariant:
  assumes "P st"
    and "\<And>f s. f \<in> set fs \<Longrightarrow> P s \<Longrightarrow> P (f s)"
    and "\<And>e s. P s \<Longrightarrow> P (hw_step e s)"
  shows "list_all P (exec_trace fs env st) \<and> P (last (st # exec_trace fs env st))"
  using assms(1,2)
proof (induction fs arbitrary: env st)
  case Nil
  then show ?case by simp
next
  case (Cons f fs)
  let ?st = "f (hw_steps (env 0) st)"
  have "P (hw_steps (env 0) st)" using Cons.prems(1) assms(3) by (rule hw_steps_invariant)
  then have p: "P ?st" using Cons.prems(2) by simp
  moreover have "list_all P (exec_trace fs (\<lambda>k. env (Suc k)) ?st)
      \<and> P (last (?st # exec_trace fs (\<lambda>k. env (Suc k)) ?st))"
    using p Cons.prems(2) by (intro Cons.IH) simp_all
  ultimately show ?case by simp
qed

lemma trace_established:
  assumes "Q st"
    and "\<And>e s. Q s \<Longrightarrow> Q (hw_step e s)"
    and "\<And>s. Q s \<Longrightarrow> P (f s)"
    and "\<And>g s. g \<in> set fs \<Longrightarrow> P s \<Longrightarrow> P (g s)"
    and "\<And>e s. P s \<Longrightarrow> P (hw_step e s)"
  shows "list_all P (exec_trace (f # fs) env st)"
proof -
  let ?st = "f (hw_steps (env 0) st)"
  have "Q (hw_steps (env 0) st)" using assms(1,2) by (rule hw_steps_invariant)
  then have "P ?st" by (rule assms(3))
  moreover from this have "list_all P (exec_trace fs (\<lambda>k. env (Suc k)) ?st)"
    using trace_invariant [of P ?st fs] assms(4,5) by blast
  ultimately show ?thesis by simp
qed

lemma ms_waited_hw_step [simp]: "ms_waited (hw_step e st) = ms_waited st"
  by (cases e) (simp_all add: adc_interrupt_def ADC_vect_def)

lemma ms_waited_hw_steps [simp]: "ms_waited (hw_steps es st) = ms_waited st"
  by (induction es arbitrary: st) simp_all

lemma ms_waited_trace_wait:
  "map ms_waited (exec_trace (replicate n wait_1ms) env st) = map (\<lambda>k. ms_waited st + Suc k) [0..<n]"
proof (induction n arbitrary: env st)
  case 0
  show ?case by simp
next
  case (Suc n)
  let ?st = "wait_1ms (hw_steps (env 0) st)"
  have m: "ms_waited ?st = ms_waited st + 1" by (simp add: wait_1ms_def)
  have "[0..<Suc n] = 0 # map Suc [0..<n]" by (simp add: upt_conv_Cons map_Suc_upt del: upt_Suc)
  then have "map (\<lambda>k. ms_waited st + Suc k) [0..<Suc n]
      = (ms_waited st + 1) # map (\<lambda>k. ms_waited ?st + Suc k) [0..<n]"
    by (simp add: m comp_def del: upt_Suc)
  moreover have "map ms_waited (exec_trace (replicate (Suc n) wait_1ms) env st)
      = ms_waited ?st # map ms_waited (exec_trace (replicate n wait_1ms) (\<lambda>k. env (Suc k)) ?st)"
    by simp
  ultimately show ?case using Suc.IH [of "\<lambda>k. env (Suc k)" ?st] m by simp
qed

lemma last_trace_wait:
  "last (st # exec_trace (replicate n wait_1ms) env st) = delay_ms n env st"
  by (induction n arbitrary: env st) simp_all

lemma main_stmts_length: "length main_stmts = 2019"
  by (simp add: main_stmts_def ioinit_stmts_def)

lemma startup_facts:
  "\<not> SREG_I (startup hw)" "analog_readout (startup hw) = 0"
  "ms_waited (startup hw) = ms_waited hw" "OCR1A_writes (startup hw) = OCR1A_writes hw"
  by (simp_all add: startup_def reset_def)

lemma before_sei:
  "list_all (\<lambda>s. \<not> SREG_I s \<and> analog_readout s = 0 \<and> ms_waited s = ms_waited hw)
     (take 18 (main_trace env hw))"
proof -
  let ?P = "\<lambda>s :: mcu. \<not> SREG_I s \<and> analog_readout s = 0 \<and> ms_waited s = ms_waited hw"
  have "?P (startup hw)" by (simp add: startup_facts)
  moreover have "\<And>f s. f \<in> set (take 18 main_stmts) \<Longrightarrow> ?P s \<Longrightarrow> ?P (f s)"
    by (auto simp add: main_stmts_def ioinit_stmts_def)
  moreover have "\<And>e s. ?P s \<Longrightarrow> ?P (hw_step e s)"
  proof -
    fix e and s :: mcu
    assume "?P s"
    then show "?P (hw_step e s)" by (cases e) (simp_all add: adc_interrupt_def)
  qed
  ultimately have "list_all ?P (exec_trace (take 18 main_stmts) env (startup hw))"
    using trace_invariant [of ?P "startup hw" "take 18 main_stmts" env] by blast
  then show ?thesis by (simp only: main_trace_def exec_trace_take)
qed

lemma writes_before_OCR1A:
  "OCR1A_writes (last (startup hw # exec_trace (take 5 main_stmts) env (startup hw))) = OCR1A_writes hw"
proof -
  let ?Q = "\<lambda>s :: mcu. OCR1A_writes s = OCR1A_writes hw"
  have "?Q (startup hw)" by (simp add: startup_facts)
  moreover have "\<And>f s. f \<in> set (take 5 main_stmts) \<Longrightarrow> ?Q s \<Longrightarrow> ?Q (f s)"
    by (auto simp add: main_stmts_def ioinit_stmts_def)
  moreover have "\<And>e s. ?Q s \<Longrightarrow> ?Q (hw_step e s)" by simp
  ultimately show ?thesis
    using trace_invariant [of ?Q "startup hw" "take 5 main_stmts" env] by blast
qed

lemma from_OCR1A_on:
  "list_all (\<lambda>s. OCR1A s = word_of_int PWM_CENTER \<and> OCR1A_writes s = OCR1A_writes hw + 1)
     (drop 5 (main_trace env hw))"
proof -
  let ?P = "\<lambda>s :: mcu. OCR1A s = word_of_int PWM_CENTER \<and> OCR1A_writes s = OCR1A_writes hw + 1"
  let ?Q = "\<lambda>s :: mcu. OCR1A_writes s = OCR1A_writes hw"
  let ?f = "\<lambda>st :: mcu. st\<lparr>OCR1A := word_of_int PWM_INIT, OCR1A_writes := OCR1A_writes st + 1\<rparr>"
  let ?st = "last (startup hw # exec_trace (take 5 main_stmts) env (startup hw))"
  have d: "drop 5 main_stmts = ?f # drop 6 main_stmts"
    by (simp add: main_stmts_def ioinit_stmts_def)
  have "list_all ?P (exec_trace (?f # drop 6 main_stmts) (\<lambda>k. env (5 + k)) ?st)"
  proof (rule trace_established [where Q = ?Q])
    show "?Q ?st" by (rule writes_before_OCR1A)
    show "\<And>e s. ?Q s \<Longrightarrow> ?Q (hw_step e s)" by simp
    show "\<And>s. ?Q s \<Longrightarrow> ?P (?f s)" by (simp add: PWM_INIT_def)
    show "\<And>g s. g \<in> set (drop 6 main_stmts) \<Longrightarrow> ?P s \<Longrightarrow> ?P (g s)"
      by (auto simp add: main_stmts_def ioinit_stmts_def sei_def wait_1ms_def)
    show "\<And>e s. ?P s \<Longrightarrow> ?P (hw_step e s)" by simp
  qed
  then show ?thesis by (simp only: main_trace_def exec_trace_drop d)
qed

lemma from_timer_on:
  "list_all (\<lambda>s. ICR1 s = word_of_int SERVO_PERIOD) (drop 6 (main_trace env hw))"
  "list_all (\<lambda>s. TCCR1A s = TIM1_CTRLA) (drop 7 (main_trace env hw))"
  "list_all (\<lambda>s. TCCR1B s = TIM1_CTRLB) (drop 8 (main_trace env hw))"
proof -
  have h: "\<And>e (s :: mcu). ICR1 (hw_step e s) = ICR1 s \<and> TCCR1A (hw_step e s) = TCCR1A s
      \<and> TCCR1B (hw_step e s) = TCCR1B s"
  proof -
    fix e and s :: mcu
    show "ICR1 (hw_step e s) = ICR1 s \<and> TCCR1A (hw_step e s) = TCCR1A s
      \<and> TCCR1B (hw_step e s) = TCCR1B s"
      by (cases e) (simp_all add: adc_interrupt_def ADC_vect_def)
  qed
  let ?f6 = "\<lambda>st :: mcu. st\<lparr>ICR1 := word_of_int SERVO_PERIOD\<rparr>"
  have d6: "drop 6 main_stmts = ?f6 # drop 7 main_stmts"
    by (simp add: main_stmts_def ioinit_stmts_def)
  have "list_all (\<lambda>s. ICR1 s = word_of_int SERVO_PERIOD)
      (exec_trace (?f6 # drop 7 main_stmts) (\<lambda>k. env (6 + k))
         (last (startup hw # exec_trace (take 6 main_stmts) env (startup hw))))"
    by (rule trace_established [where Q = "\<lambda>s. True"])
      (auto simp add: h main_stmts_def ioinit_stmts_def sei_def wait_1ms_def)
  then show "list_all (\<lambda>s. ICR1 s = word_of_int SERVO_PERIOD) (drop 6 (main_trace env hw))"
    by (simp only: main_trace_def exec_trace_drop d6)
  let ?f7 = "\<lambda>st :: mcu. st\<lparr>TCCR1A := TIM1_CTRLA\<rparr>"
  have d7: "drop 7 main_stmts = ?f7 # drop 8 main_stmts"
    by (simp add: main_stmts_def ioinit_stmts_def)
  have "list_all (\<lambda>s. TCCR1A s = TIM1_CTRLA)
      (exec_trace (?f7 # drop 8 main_stmts) (\<lambda>k. env (7 + k))
         (last (startup hw # exec_trace (take 7 main_stmts) env (startup hw))))"
    by (rule trace_established [where Q = "\<lambda>s. True"])
      (auto simp add: h main_stmts_def ioinit_stmts_def sei_def wait_1ms_def)
  then show "list_all (\<lambda>s. TCCR1A s = TIM1_CTRLA) (drop 7 (main_trace env hw))"
    by (simp only: main_trace_def exec_trace_drop d7)
  let ?f8 = "\<lambda>st :: mcu. st\<lparr>TCCR1B := TIM1_CTRLB\<rparr>"
  have d8: "drop 8 main_stmts = ?f8 # drop 9 main_stmts"
    by (simp add: main_stmts_def ioinit_stmts_def)
  have "list_all (\<lambda>s. TCCR1B s = TIM1_CTRLB)
      (exec_trace (?f8 # drop 9 main_stmts) (\<lambda>k. env (8 + k))
         (last (startup hw # exec_trace (take 8 main_stmts) env (startup hw))))"
    by (rule trace_established [where Q = "\<lambda>s. True"])
      (auto simp add: h main_stmts_def ioinit_stmts_def sei_def wait_1ms_def)
  then show "list_all (\<lambda>s. TCCR1B s = TIM1_CTRLB) (drop 8 (main_trace env hw))"
    by (simp only: main_trace_def exec_trace_drop d8)
qed

lemma drop_18_main_stmts: "drop 18 main_stmts = sei # replicate 2000 wait_1ms"
  by (simp add: main_stmts_def ioinit_stmts_def)

lemma from_sei_on: "list_all SREG_I (drop 18 (main_trace env hw))"
proof -
  have h: "\<And>e (s :: mcu). SREG_I (hw_step e s) = SREG_I s"
  proof -
    fix e and s :: mcu
    show "SREG_I (hw_step e s) = SREG_I s"
      by (cases e) (simp_all add: adc_interrupt_def ADC_vect_def)
  qed
  have "list_all SREG_I
      (exec_trace (sei # replicate 2000 wait_1ms) (\<lambda>k. env (18 + k))
         (last (startup hw # exec_trace (take 18 main_stmts) env (startup hw))))"
    by (rule trace_established [where Q = "\<lambda>s. True"])
      (auto simp add: h sei_def wait_1ms_def)
  then show ?thesis by (simp only: main_trace_def exec_trace_drop drop_18_main_stmts)
qed

lemma ms_waited_before_sei:
  "ms_waited (last (startup hw # exec_trace (take 18 main_stmts) env (startup hw))) = ms_waited hw"
proof -
  let ?Q = "\<lambda>s :: mcu. ms_waited s = ms_waited hw"
  have "?Q (startup hw)" by (simp add: startup_facts)
  moreover have "\<And>f s. f \<in> set (take 18 main_stmts) \<Longrightarrow> ?Q s \<Longrightarrow> ?Q (f s)"
    by (auto simp add: main_stmts_def ioinit_stmts_def)
  moreover have "\<And>e s. ?Q s \<Longrightarrow> ?Q (hw_step e s)" by simp
  ultimately show ?thesis
    using trace_invariant [of ?Q "startup hw" "take 18 main_stmts" env] by blast
qed

lemma ms_waited_trace_sei_wait:
  "map ms_waited (exec_trace (sei # replicate n wait_1ms) env st)
     = map (\<lambda>k. ms_waited st + k) [0..<Suc n]"
proof -
  let ?st = "sei (hw_steps (env 0) st)"
  have m: "ms_waited ?st = ms_waited st" by (simp add: sei_def)
  have u: "[0..<Suc n] = 0 # map Suc [0..<n]"
    by (simp add: upt_conv_Cons map_Suc_upt del: upt_Suc)
  have "map ms_waited (exec_trace (sei # replicate n wait_1ms) env st)
      = ms_waited ?st # map ms_waited (exec_trace (replicate n wait_1ms) (\<lambda>k. env (Suc k)) ?st)"
    by simp
  also have "\<dots> = ms_waited st # map (\<lambda>k. ms_waited st + Suc k) [0..<n]"
    by (simp only: ms_waited_trace_wait m)
  also have "\<dots> = map (\<lambda>k. ms_waited st + k) (0 # map Suc [0..<n])"
    by (simp add: comp_def)
  finally show ?thesis by (simp only: u)
qed

lemma clock_during_delay:
  "map ms_waited (drop 18 (main_trace env hw)) = map (\<lambda>k. ms_waited hw + k) [0..<Suc 2000]"
proof -
  let ?s17 = "last (startup hw # exec_trace (take 18 main_stmts) env (startup hw))"
  have "drop 18 (main_trace env hw)
      = exec_trace (sei # replicate 2000 wait_1ms) (\<lambda>k. env (18 + k)) ?s17"
    by (simp only: main_trace_def exec_trace_drop drop_18_main_stmts)
  then show ?thesis by (simp only: ms_waited_trace_sei_wait ms_waited_before_sei)
qed


lemma locals_kept:
  "list_all (\<lambda>s. center_manual_sw s = SET_CENTER \<and> prev_sw_state s = SET_MANUAL)
     (drop 1 (main_trace env hw))"
proof -
  let ?P = "\<lambda>s :: mcu. center_manual_sw s = SET_CENTER \<and> prev_sw_state s = SET_MANUAL"
  let ?Q = "\<lambda>s :: mcu. center_manual_sw s = SET_CENTER"
  let ?f0 = "\<lambda>st :: mcu. st\<lparr>center_manual_sw := SET_CENTER\<rparr>"
  let ?f1 = "\<lambda>st :: mcu. st\<lparr>prev_sw_state := SET_MANUAL\<rparr>"
  let ?s0 = "last (startup hw # exec_trace (take 1 main_stmts) env (startup hw))"
  have t: "take 1 main_stmts = [?f0]" and d: "drop 1 main_stmts = ?f1 # drop 2 main_stmts"
    by (simp_all add: main_stmts_def ioinit_stmts_def)
  have q: "?Q ?s0" by (simp only: t) simp
  have "list_all ?P (exec_trace (?f1 # drop 2 main_stmts) (\<lambda>k. env (1 + k)) ?s0)"
  proof (rule trace_established [where Q = ?Q])
    show "?Q ?s0" by (rule q)
    show "\<And>e s. ?Q s \<Longrightarrow> ?Q (hw_step e s)" by simp
    show "\<And>s. ?Q s \<Longrightarrow> ?P (?f1 s)" by simp
    show "\<And>g s. g \<in> set (drop 2 main_stmts) \<Longrightarrow> ?P s \<Longrightarrow> ?P (g s)"
      by (auto simp add: main_stmts_def ioinit_stmts_def sei_def wait_1ms_def)
    show "\<And>e s. ?P s \<Longrightarrow> ?P (hw_step e s)" by simp
  qed
  then show ?thesis by (simp only: main_trace_def exec_trace_drop d)
qed

lemma exec_trace_idle:
  assumes "\<And>k. k < length fs \<Longrightarrow> env k = []"
  shows "last (st # exec_trace fs env st) = foldl (\<lambda>s f. f s) st fs"
  using assms
proof (induction fs arbitrary: env st)
  case Nil
  show ?case by simp
next
  case (Cons f fs)
  have e: "env 0 = []" using Cons.prems [of 0] by simp
  have "last (f st # exec_trace fs (\<lambda>k. env (Suc k)) (f st)) = foldl (\<lambda>s f. f s) (f st) fs"
    using Cons.prems by (intro Cons.IH) simp
  then show ?case by (simp add: e)
qed

lemma main_init_stmts: "foldl (\<lambda>s f. f s) st (take 19 main_stmts) = main_init st"
  by (simp add: main_stmts_def ioinit_stmts_def main_init_def ioinit_def sei_def)

lemma loop_entry_state:
  "last (main_trace (\<lambda>k. if k < 19 then [] else env (k - 19)) hw)
     = delay_ms 2000 env (main_init (startup hw))"
proof -
  let ?env = "\<lambda>k. if k < 19 then [] else env (k - 19)"
  let ?tr = "main_trace ?env hw"
  let ?s18 = "last (startup hw # exec_trace (take 19 main_stmts) ?env (startup hw))"
  have s18: "?s18 = main_init (startup hw)"
  proof -
    have "?s18 = foldl (\<lambda>s f. f s) (startup hw) (take 19 main_stmts)"
      by (rule exec_trace_idle) (simp add: main_stmts_length)
    then show ?thesis by (simp only: main_init_stmts)
  qed
  have d: "drop 19 main_stmts = replicate 2000 wait_1ms"
    by (simp add: main_stmts_def ioinit_stmts_def)
  have e: "(\<lambda>k. ?env (19 + k)) = env" by (rule ext) simp
  have "drop 19 ?tr = exec_trace (replicate 2000 wait_1ms) env (main_init (startup hw))"
    by (simp only: main_trace_def exec_trace_drop d e s18)
  moreover have "last (drop 19 ?tr) = last ?tr"
    by (rule last_drop) (simp add: main_trace_def main_stmts_length)
  moreover have "exec_trace (replicate 2000 wait_1ms) env (main_init (startup hw)) \<noteq> []"
    by (simp flip: length_greater_0_conv)
  ultimately have "last ?tr
      = last (main_init (startup hw) # exec_trace (replicate 2000 wait_1ms) env (main_init (startup hw)))"
    by simp
  then show ?thesis by (simp only: last_trace_wait)
qed

text \<open>
  Claim C7. The startup order, read off the states that \<open>main\<close> passes through
  before the loop, whatever the hardware does between the statements. The trace has one
  state after each of the 2 + 16 + 1 + 2000 statements; state \<open>k\<close> follows statement
  \<open>k\<close>, counted from \<open>0\<close>: the locals are statements 0 and 1, the assignment to
  \<open>OCR1A\<close> is statement 5, those to \<open>ICR1\<close>, \<open>TCCR1A\<close> and \<open>TCCR1B\<close> are
  statements 6 to 8, \<open>sei()\<close> is statement 18, and the waits follow.
  \<^item> Up to the end of \<open>ioinit()\<close> interrupts are disabled, the handler has not run
    (\<open>analog_readout\<close> is still \<open>0\<close>) and no time has been spent waiting.
  \<^item> From its assignment on, so before the timer is configured and before
    \<open>sei()\<close>, the compare register holds \<open>PWM_CENTER = 184\<close>, written once, in every
    state up to the end of the delay.
  \<^item> From \<open>sei()\<close> on interrupts are enabled, and the states that follow are those
    after 0, 1, ..., 2000 milliseconds of waiting.
  \<^item> Nothing has changed the two locals, and the loop, where the switch is first read,
    starts from the last state of the trace, 2000 milliseconds of waiting after
    \<open>sei()\<close>.
\<close>

theorem startup_center_before_loop:
  "length (main_trace env hw) = 2 + 16 + 1 + 2000 \<and>
   list_all (\<lambda>s. \<not> SREG_I s \<and> analog_readout s = 0 \<and> ms_waited s = ms_waited hw)
     (take 18 (main_trace env hw)) \<and>
   list_all (\<lambda>s. OCR1A s = word_of_int PWM_CENTER \<and> OCR1A_writes s = OCR1A_writes hw + 1)
     (drop 5 (main_trace env hw)) \<and>
   list_all (\<lambda>s. ICR1 s = word_of_int SERVO_PERIOD) (drop 6 (main_trace env hw)) \<and>
   list_all (\<lambda>s. TCCR1A s = TIM1_CTRLA) (drop 7 (main_trace env hw)) \<and>
   list_all (\<lambda>s. TCCR1B s = TIM1_CTRLB) (drop 8 (main_trace env hw)) \<and>
   list_all SREG_I (drop 18 (main_trace env hw)) \<and>
   map ms_waited (drop 18 (main_trace env hw)) = map (\<lambda>k. ms_waited hw + k) [0..<Suc 2000] \<and>
   list_all (\<lambda>s. center_manual_sw s = SET_CENTER \<and> prev_sw_state s = SET_MANUAL)
     (drop 1 (main_trace env hw)) \<and>
   main dbl env evs hw
     = run dbl evs (last (main_trace (\<lambda>k. if k < 19 then [] else env (k - 19)) hw)) \<and>
   ms_waited (main dbl env [] hw) = ms_waited hw + 2000 \<and>
   PWM_CENTER = 184"
proof -
  have "length (main_trace env hw) = 2 + 16 + 1 + 2000"
    by (simp add: main_trace_def main_stmts_length)
  moreover have "main dbl env evs hw
      = run dbl evs (last (main_trace (\<lambda>k. if k < 19 then [] else env (k - 19)) hw))"
    by (simp only: loop_entry_state main_def)
  moreover have "ms_waited (main dbl env [] hw) = ms_waited hw + 2000"
  proof -
    have "ms_waited (delay_ms n env st) = ms_waited st + n" for n env st
      by (induction n arbitrary: env st) (simp_all add: wait_1ms_def)
    then show ?thesis
      by (simp add: main_def main_init_def sei_def ioinit_def startup_def reset_def)
  qed
  moreover have "PWM_CENTER = 184" by (simp add: PWM_CENTER_def)
  moreover note before_sei [of hw env] from_OCR1A_on [of hw env] from_timer_on [of env hw]
    from_sei_on [of env hw] clock_during_delay [of env hw] locals_kept [of env hw]
  ultimately show ?thesis by (intro conjI)
qed

lemma ADCH_of_left_adjusted: "ADCH_of ADCSRB_INIT c = ucast (drop_bit 2 c)"
  by (simp add: ADCH_of_def ADCSRB_INIT_def)

lemma uint_top8: "uint (ucast (drop_bit 2 (c :: 10 word)) :: 8 word) = uint c div 4"
proof -
  have t: "take_bit LENGTH(10) (uint c) = uint c"
    using uint_lt2p [of c] by (intro take_bit_int_eq_self) simp_all
  have "uint (drop_bit 2 c) = drop_bit 2 (take_bit LENGTH(10) (uint c))"
    by (rule unsigned_drop_bit_eq)
  also have "\<dots> = uint c div 4" by (simp only: t drop_bit_eq_div) simp
  finally have d: "uint (drop_bit 2 c) = uint c div 4" .
  have "uint c < 1024" using uint_lt2p [of c] by simp
  then have b: "0 \<le> uint c div 4" "uint c div 4 < 2 ^ 8"
    by (simp_all add: pos_imp_zdiv_nonneg_iff)
  have "uint (ucast (drop_bit 2 c) :: 8 word) = take_bit LENGTH(8) (uint (drop_bit 2 c))"
    by (rule unsigned_ucast_eq)
  also have "\<dots> = uint c div 4" unfolding d using b by (simp add: take_bit_int_eq_self)
  finally show ?thesis .
qed

lemma hw_steps_frame:
  "(hw_steps (map Conversion cs) st)\<lparr>ADCH := ADCH st, analog_readout := analog_readout st\<rparr> = st"
proof (induction cs arbitrary: st)
  case Nil
  show ?case by simp
next
  case (Cons c cs)
  let ?st = "hw_step (Conversion c) st"
  let ?end = "hw_steps (map Conversion cs) ?st"
  have "?end\<lparr>ADCH := ADCH st, analog_readout := analog_readout st\<rparr>
      = (?end\<lparr>ADCH := ADCH ?st, analog_readout := analog_readout ?st\<rparr>)
          \<lparr>ADCH := ADCH st, analog_readout := analog_readout st\<rparr>"
    by simp
  also have "\<dots> = ?st\<lparr>ADCH := ADCH st, analog_readout := analog_readout st\<rparr>"
    by (simp only: Cons.IH)
  also have "\<dots> = st" by (simp add: adc_interrupt_def ADC_vect_def)
  finally show ?case by simp
qed

text \<open>
  Claim C8. The handler copies \<open>ADCH\<close> into \<open>analog_readout\<close> and changes nothing
  else: putting the old value of \<open>analog_readout\<close> back gives the state before the
  handler, at whatever point of the program it runs. With the \<open>ADCSRB\<close> that
  \<open>ioinit()\<close> sets, \<open>ADCH\<close> holds the eight most significant bits of the 10-bit
  conversion, its value divided by four. A completed conversion changes \<open>ADCH\<close> and,
  through the handler when it is enabled, \<open>analog_readout\<close>; any number of them
  changes nothing but these two.
\<close>

theorem adc_handler_frame:
  "analog_readout (ADC_vect st) = ADCH st \<and>
   (ADC_vect st)\<lparr>analog_readout := analog_readout st\<rparr> = st \<and>
   ADCSRB (ioinit st) = ADCSRB_INIT \<and>
   ADCH_of ADCSRB_INIT c = ucast (drop_bit 2 c) \<and>
   uint (ADCH_of ADCSRB_INIT c) = uint c div 4 \<and>
   hw_step (Conversion c) st =
     (if SREG_I st \<and> bit (ADCSRA st) 3
      then st\<lparr>ADCH := ADCH_of (ADCSRB st) c, analog_readout := ADCH_of (ADCSRB st) c\<rparr>
      else st\<lparr>ADCH := ADCH_of (ADCSRB st) c\<rparr>) \<and>
   (hw_steps (map Conversion cs) st)\<lparr>ADCH := ADCH st, analog_readout := analog_readout st\<rparr> = st"
  by (simp add: ADC_vect_def ioinit_def ADCH_of_left_adjusted uint_top8 adc_interrupt_def hw_steps_frame)

text \<open>
  Claim C9. For every 8-bit sample the value of \<open>temp\<close> after line 199, truncated,
  lies from \<open>PWM_LOW\<close> to \<open>PWM_HIGH\<close>, fits eight bits and equals the truncated
  exact value; the casts to \<open>uint8_t\<close> and on to the 16-bit register keep it as it is.
\<close>

theorem manual_cast_no_wrap:
  "PWM_LOW \<le> fp_trunc (scale_readout dbl a) \<and>
   fp_trunc (scale_readout dbl a) \<le> PWM_HIGH \<and>
   fp_trunc (scale_readout dbl a) < 2 ^ 8 \<and>
   fp_trunc (scale_readout dbl a) =
     \<lfloor>of_int PWM_LOW + of_int (uint a) * of_int (PWM_HIGH - PWM_LOW) / (255 :: rat)\<rfloor> \<and>
   uint (uint8_of_float (scale_readout dbl a)) = fp_trunc (scale_readout dbl a) \<and>
   uint (ucast (uint8_of_float (scale_readout dbl a)) :: 16 word) = fp_trunc (scale_readout dbl a)"
  unfolding floor_scale_formula
  using scaled_sample_range [of a]
  by (simp add: fp_trunc_scale_readout uint_uint8_of_float_scale uint_manual_OCR1A
      PWM_LOW_def PWM_HIGH_def)

text \<open>
  Claim C10. \<open>prev_sw_state\<close> is \<open>SET_MANUAL\<close> when the loop is entered, whatever
  happened during the delay and whatever hardware events precede the first iteration.
  If that iteration reads the switch as Center, it assigns \<open>PWM_CENTER\<close> to the
  compare register once more.
\<close>

theorem first_iteration_recenters:
  "prev_sw_state (main_init st) = SET_MANUAL \<and>
   prev_sw_state (main dbl env (map Hw es) hw) = SET_MANUAL \<and>
   main dbl env (map Hw es @ [Iteration]) hw = loop_body dbl (main dbl env (map Hw es) hw) \<and>
   (bit (PINA (main dbl env (map Hw es) hw)) 1 \<longrightarrow>
      OCR1A (main dbl env (map Hw es @ [Iteration]) hw) = word_of_int PWM_CENTER \<and>
      OCR1A_writes (main dbl env (map Hw es @ [Iteration]) hw)
        = OCR1A_writes (main dbl env (map Hw es) hw) + 1 \<and>
      prev_sw_state (main dbl env (map Hw es @ [Iteration]) hw) = SET_CENTER)"
proof -
  let ?s = "main dbl env (map Hw es) hw"
  have p: "prev_sw_state ?s = SET_MANUAL"
    by (simp add: main_def run_hw main_init_def sei_def ioinit_def)
  have r: "main dbl env (map Hw es @ [Iteration]) hw = loop_body dbl ?s"
    by (simp add: main_def run_append)
  have "prev_sw_state ?s \<noteq> SET_CENTER" by (simp add: p SET_MANUAL_def SET_CENTER_def)
  then have "bit (PINA ?s) 1 \<longrightarrow>
      OCR1A (loop_body dbl ?s) = word_of_int PWM_CENTER \<and>
      OCR1A_writes (loop_body dbl ?s) = OCR1A_writes ?s + 1 \<and>
      prev_sw_state (loop_body dbl ?s) = SET_CENTER"
    by (simp add: loop_body_center_edge)
  with p r show ?thesis by (simp add: main_init_def sei_def ioinit_def)
qed

theorem first_iteration_recenters_witness:
  "bit (PINA (main Binary32 (\<lambda>k. []) (map Hw []) (power_on\<lparr>PINA := 2\<rparr>))) 1 \<and>
   OCR1A (main Binary32 (\<lambda>k. []) (map Hw [] @ [Iteration]) (power_on\<lparr>PINA := 2\<rparr>)) = 184 \<and>
   OCR1A_writes (main Binary32 (\<lambda>k. []) (map Hw [] @ [Iteration]) (power_on\<lparr>PINA := 2\<rparr>)) = 2"
  using first_iteration_recenters [of power_on Binary32 "\<lambda>k. []" "[]" "power_on\<lparr>PINA := 2\<rparr>"]
  by (simp add: main_def delay_ms_idle main_init_def sei_def ioinit_def startup_def reset_def
      power_on_def PWM_CENTER_def)


end
